theory Spec2Isabelle
  imports Complex_Main
begin

section \<open>Python values used by the RAG engine\<close>

text \<open>
  A Python \<open>str\<close> is a sequence of Unicode code points and \<open>len\<close> counts code points,
  so a string of the program is a list of code points here. Literals of the source are
  written as Isabelle strings and converted by \<open>str\<close>.
\<close>

type_synonym pystr = "nat list"

definition str :: "string \<Rightarrow> pystr" where
  "str s = map of_char s"

definition CR :: nat where "CR = 13"
definition LF :: nat where "LF = 10"

text \<open>
  \<open>str.isspace\<close> for one code point: the code points CPython's Unicode database marks
  as whitespace (bidirectional class WS, B or S, or category Zs).
\<close>

definition isspace :: "nat \<Rightarrow> bool" where
  "isspace c \<longleftrightarrow>
     (9 \<le> c \<and> c \<le> 13) \<or> (28 \<le> c \<and> c \<le> 32) \<or> c = 133 \<or> c = 160 \<or> c = 5760 \<or>
     (8192 \<le> c \<and> c \<le> 8202) \<or> c = 8232 \<or> c = 8233 \<or> c = 8239 \<or> c = 8287 \<or> c = 12288"

text \<open>\<open>s.strip()\<close>: drop the leading and the trailing whitespace.\<close>

definition strip :: "pystr \<Rightarrow> pystr" where
  "strip s = rev (dropWhile isspace (rev (dropWhile isspace s)))"

text \<open>\<open>s.replace("\r\n", "\n")\<close>: the occurrences are replaced from left to right.\<close>

fun replace_crlf :: "pystr \<Rightarrow> pystr" where
  "replace_crlf (c # d # s) =
     (if c = CR \<and> d = LF then LF # replace_crlf s else c # replace_crlf (d # s))"
| "replace_crlf s = s"

text \<open>
  \<open>xs[i:j]\<close> for integers \<open>i\<close> and \<open>j\<close>: a negative index counts from the end, and
  both indices are clamped to the list, so a slice never raises.
\<close>

definition clamp_index :: "nat \<Rightarrow> int \<Rightarrow> nat" where
  "clamp_index n i = (if i < 0 then nat (max (int n + i) 0) else min (nat i) n)"

definition py_slice :: "'a list \<Rightarrow> int \<Rightarrow> int \<Rightarrow> 'a list" where
  "py_slice xs i j =
     (let lo = clamp_index (length xs) i; hi = clamp_index (length xs) j
      in take (hi - lo) (drop lo xs))"

section \<open>The chunker (\<open>chunk_text\<close> of backend/rag.py)\<close>

text \<open>
  The \<open>while\<close> loop of \<open>chunk_text\<close>, with its two exits: the loop condition and the
  \<open>break\<close> once a window reaches the end of the text. The loop may run forever, so
  it is a partial function: \<open>None\<close> is "does not return".
\<close>

partial_function (option) chunk_loop ::
  "pystr \<Rightarrow> int \<Rightarrow> int \<Rightarrow> int \<Rightarrow> pystr list \<Rightarrow> pystr list option" where
  "chunk_loop text max_chars overlap start chunks =
     (if start < int (length text) then
        (let end = min (start + max_chars) (int (length text));
             chunk = py_slice text start end;
             chunks' = chunks @ [strip chunk]
         in if end = int (length text) then Some chunks'
            else chunk_loop text max_chars overlap (end - overlap) chunks')
      else Some chunks)"

declare chunk_loop.simps [code]

definition chunk_text :: "pystr \<Rightarrow> int \<Rightarrow> int \<Rightarrow> pystr list option" where
  "chunk_text text max_chars overlap =
     map_option (filter (\<lambda>c. c \<noteq> []))
       (chunk_loop (replace_crlf text) max_chars overlap 0 [])"

text \<open>
  Two definitions that follow the specification's words, for comparison with the code:
  the number of chunks it predicts for a text of length \<open>L\<close>,
  \<open>ceil((L - overlap) / (max_chars - overlap))\<close>, and the \<open>k\<close>-th window of the
  text, which starts \<open>overlap\<close> characters before the end of the previous one.
\<close>

definition spec_chunk_count :: "nat \<Rightarrow> int \<Rightarrow> int \<Rightarrow> nat" where
  "spec_chunk_count L max_chars overlap =
     nat \<lceil>(of_int (int L - overlap) :: real) / of_int (max_chars - overlap)\<rceil>"

definition window :: "pystr \<Rightarrow> int \<Rightarrow> int \<Rightarrow> nat \<Rightarrow> pystr" where
  "window t max_chars overlap k =
     py_slice t (int k * (max_chars - overlap))
       (min (int k * (max_chars - overlap) + max_chars) (int (length t)))"

text \<open>
  The states from which the loop never returns: the window cannot advance
  (\<open>max_chars \<le> overlap\<close>), no window reaches the end of the text, and the start
  index is not positive.
\<close>

definition stuck :: "pystr \<Rightarrow> int \<Rightarrow> int \<Rightarrow> int \<Rightarrow> bool" where
  "stuck t max_chars overlap start \<longleftrightarrow>
     max_chars \<le> overlap \<and> max_chars < int (length t) \<and> start \<le> 0 \<and> 0 < length t"

section \<open>Documents and the knowledge base (backend/knowledge_base.py)\<close>

text \<open>
  A document is a Python dict with the keys \<open>id\<close>, \<open>title\<close> and \<open>text\<close>; the documents
  of an ingested report also have \<open>report_id\<close> and \<open>filename\<close>. A missing key is
  \<open>None\<close>, which is what \<open>doc.get(key)\<close> returns for it.
\<close>

record doc =
  doc_id :: pystr
  title :: pystr
  doc_text :: pystr
  report_id :: "pystr option"
  filename :: "pystr option"

text \<open>A scored result is \<open>{**doc, "score": score}\<close>: a copy of the document with one more key.\<close>

record 's scored = doc +
  score :: 's

definition KNOWLEDGE_CHUNKS :: "doc list" where
  "KNOWLEDGE_CHUNKS =
    [\<lparr>doc_id = str ''doc1_balcony_membranes'',
      title = str ''Balcony Membrane Lifespan and Replacement'',
      doc_text =
        str ''In coastal British Columbia, exposed balcony membranes typically have a '' @
        str ''service life of approximately 15 to 25 years, depending on UV exposure, '' @
        str ''drainage, and maintenance. Common deficiencies include membrane cracks, '' @
        str ''failures at door thresholds, and poor slope leading to ponding. '' @
        str ''When membranes are at or beyond their expected service life, or when '' @
        str ''leaks are observed below, replacement should be considered a high priority.'',
      report_id = None, filename = None\<rparr>,
     \<lparr>doc_id = str ''doc2_parkade_cracking'',
      title = str ''Parkade Slab Cracking and Risk'',
      doc_text =
        str ''Hairline shrinkage cracks in parkade slabs are common and often not '' @
        str ''structurally significant, provided there is no differential movement, '' @
        str ''spalling, or corrosion staining. Wider cracks, active water leakage, '' @
        str ''or rust staining at reinforcing steel indicate a higher risk of '' @
        str ''long-term deterioration. In such cases, further structural assessment '' @
        str ''and localized repair are recommended.'',
      report_id = None, filename = None\<rparr>,
     \<lparr>doc_id = str ''doc3_rainscreen_bc'',
      title = str ''Rainscreen Requirements in British Columbia'',
      doc_text =
        str ''Rainscreen wall assemblies became common practice in coastal BC in the '' @
        str ''mid to late 1990s, following widespread moisture-related building envelope '' @
        str ''failures. For many municipalities in the Lower Mainland, rainscreen '' @
        str ''requirements were adopted around 1996'' @ [8211] @ str ''1999. Older buildings without '' @
        str ''rainscreen cladding generally have a higher risk of concealed moisture '' @
        str ''damage, particularly at balconies, window interfaces, and roof-wall junctions.'',
      report_id = None, filename = None\<rparr>,
     \<lparr>doc_id = str ''doc4_maintenance_planning'',
      title = str ''Maintenance Planning and Prioritization'',
      doc_text =
        str ''For strata corporations, maintenance and renewal projects are typically '' @
        str ''prioritized based on safety, active leakage, risk of further deterioration, '' @
        str ''and impact on the building'' @ [8217] @ str ''s operation. Life-safety issues and active leaks '' @
        str ''are normally addressed first, followed by building envelope renewals, '' @
        str ''parkade repairs, and aesthetic upgrades. A depreciation report should '' @
        str ''provide a 30-year roadmap for major renewals.'',
      report_id = None, filename = None\<rparr>]"

section \<open>The engine and the capabilities it calls (backend/rag.py)\<close>

text \<open>
  The embedding and chat services, \<open>uuid.uuid4\<close> and numpy are outside the program.
  They are parameters of the model:
  \<^item> \<open>uuid4_src n\<close> is the string of the \<open>n\<close>-th UUID drawn;
  \<^item> \<open>embeddings_create texts\<close> is the list of embeddings in \<open>response.data\<close>, or
    \<open>None\<close> when the call raises;
  \<^item> \<open>normalize\<close> is \<open>_normalize\<close> on a float32 array;
  \<^item> \<open>dot vec query_vec\<close> is \<open>float(vec @ query_vec)\<close>, a Python float, which is NaN as
    soon as a component of either vector is;
  \<^item> \<open>chat_create messages\<close> is \<open>chat.choices[0].message.content\<close>, or \<open>None\<close> when
    the call raises.
\<close>

text \<open>
  A Python float is a number or NaN. The numbers (the infinities with them) are
  linearly ordered; every comparison with NaN is false.
\<close>

datatype 's pyfloat = Val 's | NaN

fun float_lt :: "'s::linorder pyfloat \<Rightarrow> 's pyfloat \<Rightarrow> bool" where
  "float_lt (Val a) (Val b) = (a < b)"
| "float_lt _ _ = False"

fun float_ge :: "'s::linorder pyfloat \<Rightarrow> 's pyfloat \<Rightarrow> bool" where
  "float_ge (Val a) (Val b) = (b \<le> a)"
| "float_ge _ _ = False"

record message =
  role :: pystr
  content :: pystr

record ('v, 's) env =
  uuid4_src :: "nat \<Rightarrow> pystr"
  embeddings_create :: "pystr list \<Rightarrow> 'v list option"
  normalize :: "'v \<Rightarrow> 'v"
  dot :: "'v \<Rightarrow> 'v \<Rightarrow> 's pyfloat"
  chat_create :: "message list \<Rightarrow> pystr option"

text \<open>
  What the program leaves outside itself: how many UUIDs were drawn, and the inputs of
  the calls made to the embedding service, in order.
\<close>

record world =
  uuid_ctr :: nat
  embed_calls :: "pystr list list"

datatype error = ProviderError | IndexError

text \<open>The four attributes of \<open>RAGEngine\<close>.\<close>

record 'v RAGEngine =
  base_docs :: "doc list"
  base_embeddings :: "'v list"
  report_docs :: "doc list"
  report_embeddings :: "'v list"

definition uuid4 :: "('v, 's) env \<Rightarrow> world \<Rightarrow> pystr \<times> world" where
  "uuid4 env w = (uuid4_src env (uuid_ctr w), w\<lparr>uuid_ctr := Suc (uuid_ctr w)\<rparr>)"

text \<open>
  \<open>_embed_texts\<close>: no call for an empty list; otherwise one call, whose failure is
  raised to the caller, and one normalized vector per item of the response.
\<close>

definition embed_texts ::
  "('v, 's) env \<Rightarrow> world \<Rightarrow> pystr list \<Rightarrow> (error + 'v list) \<times> world" where
  "embed_texts env w texts =
     (if texts = [] then (Inr [], w)
      else
        (let w' = w\<lparr>embed_calls := embed_calls w @ [texts]\<rparr>
         in case embeddings_create env texts of
              None \<Rightarrow> (Inl ProviderError, w')
            | Some data \<Rightarrow> (Inr (map (normalize env) data), w')))"

text \<open>\<open>_embed_query\<close>: \<open>response.data[0]\<close> raises IndexError on an empty response.\<close>

definition embed_query ::
  "('v, 's) env \<Rightarrow> world \<Rightarrow> pystr \<Rightarrow> (error + 'v) \<times> world" where
  "embed_query env w query =
     (let w' = w\<lparr>embed_calls := embed_calls w @ [[query]]\<rparr>
      in case embeddings_create env [query] of
           None \<Rightarrow> (Inl ProviderError, w')
         | Some [] \<Rightarrow> (Inl IndexError, w')
         | Some (v # _) \<Rightarrow> (Inr (normalize env v), w'))"

text \<open>\<open>RAGEngine.__init__\<close>; when the embedding call raises, no engine is built.\<close>

definition RAGEngine_init ::
  "('v, 's) env \<Rightarrow> world \<Rightarrow> (error + 'v RAGEngine) \<times> world" where
  "RAGEngine_init env w =
     (case embed_texts env w (map doc_text KNOWLEDGE_CHUNKS) of
        (Inl e, w') \<Rightarrow> (Inl e, w')
      | (Inr vectors, w') \<Rightarrow>
          (Inr \<lparr>base_docs = KNOWLEDGE_CHUNKS, base_embeddings = vectors,
                report_docs = [], report_embeddings = []\<rparr>, w'))"

subsection \<open>Report ingestion\<close>

text \<open>The \<open>for chunk, vec in zip(chunks, vectors)\<close> loop of \<open>ingest_report\<close>.\<close>

fun ingest_loop ::
  "('v, 's) env \<Rightarrow> pystr \<Rightarrow> pystr \<Rightarrow> (pystr \<times> 'v) list \<Rightarrow> 'v RAGEngine \<Rightarrow> world
     \<Rightarrow> 'v RAGEngine \<times> world" where
  "ingest_loop env fname rid [] self w = (self, w)"
| "ingest_loop env fname rid ((chunk, vec) # rest) self w =
     (let (new_id, w') = uuid4 env w;
          d = \<lparr>doc_id = new_id, title = str ''Report: '' @ fname, doc_text = chunk,
               report_id = Some rid, filename = Some fname\<rparr>
      in ingest_loop env fname rid rest
           (self\<lparr>report_docs := report_docs self @ [d],
                 report_embeddings := report_embeddings self @ [vec]\<rparr>) w')"

text \<open>
  \<open>ingest_report\<close> returns the outcome (the report id, or the error raised), the engine
  and the world as it leaves them. \<open>None\<close> is "does not return", which only the
  chunker could cause.
\<close>

definition ingest_report ::
  "('v, 's) env \<Rightarrow> 'v RAGEngine \<Rightarrow> world \<Rightarrow> pystr \<Rightarrow> pystr
     \<Rightarrow> ((error + pystr) \<times> 'v RAGEngine \<times> world) option" where
  "ingest_report env self w fname text =
     (let (rid, w1) = uuid4 env w
      in case chunk_text text 1200 200 of
           None \<Rightarrow> None
         | Some chunks \<Rightarrow>
             Some (if chunks = [] then (Inr rid, self, w1)
                   else
                     (case embed_texts env w1 chunks of
                        (Inl e, w2) \<Rightarrow> (Inl e, self, w2)
                      | (Inr vectors, w2) \<Rightarrow>
                          (let (self', w3) = ingest_loop env fname rid (zip chunks vectors) self w2
                           in (Inr rid, self', w3)))))"

subsection \<open>Retrieval\<close>

text \<open>
  The truth value of an \<open>Optional[str]\<close>, as in \<open>if report_id:\<close>: \<open>None\<close> and the empty
  string are false.
\<close>

definition truthy :: "pystr option \<Rightarrow> bool" where
  "truthy s = (case s of None \<Rightarrow> False | Some v \<Rightarrow> v \<noteq> [])"

text \<open>The \<open>for doc, vec in zip(docs, embeddings)\<close> loop of \<open>_retrieve_from_pool\<close>.\<close>

fun scan_pool ::
  "('v \<Rightarrow> 'v \<Rightarrow> 's) \<Rightarrow> 'v \<Rightarrow> pystr option \<Rightarrow> (doc \<times> 'v) list \<Rightarrow> 's scored list" where
  "scan_pool f query_vec filter_report_id [] = []"
| "scan_pool f query_vec filter_report_id ((d, vec) # rest) =
     (if truthy filter_report_id \<and> report_id d \<noteq> filter_report_id
      then scan_pool f query_vec filter_report_id rest
      else doc.extend d \<lparr>score = f vec query_vec\<rparr>
             # scan_pool f query_vec filter_report_id rest)"

text \<open>
  \<open>xs.sort(key=key, reverse=True)\<close> compares the keys with \<open><\<close> only. CPython reverses
  the list, sorts it stably in ascending order and reverses it again, so equal keys
  keep their order. The ascending sort is written as an insertion sort: where \<open><\<close>
  orders the keys totally there is one stable sorted arrangement, and every stable sort
  returns it. With a NaN among the keys the comparisons are inconsistent and the
  arrangement returned depends on the algorithm. A list in which no key is \<open><\<close> the key
  before it is one ascending run for CPython, which returns it as it is, and so does
  the insertion sort.
\<close>

fun insort_lt :: "('a \<Rightarrow> 's::linorder pyfloat) \<Rightarrow> 'a \<Rightarrow> 'a list \<Rightarrow> 'a list" where
  "insort_lt key x [] = [x]"
| "insort_lt key x (y # ys) =
     (if float_lt (key y) (key x) then y # insort_lt key x ys else x # y # ys)"

definition sort_lt :: "('a \<Rightarrow> 's::linorder pyfloat) \<Rightarrow> 'a list \<Rightarrow> 'a list" where
  "sort_lt key xs = foldr (insort_lt key) xs []"

definition sort_reverse :: "('a \<Rightarrow> 's::linorder pyfloat) \<Rightarrow> 'a list \<Rightarrow> 'a list" where
  "sort_reverse key xs = rev (sort_lt key (rev xs))"

definition retrieve_from_pool ::
  "('v \<Rightarrow> 'v \<Rightarrow> 's::linorder pyfloat) \<Rightarrow> 'v \<Rightarrow> doc list \<Rightarrow> 'v list \<Rightarrow> int
     \<Rightarrow> pystr option \<Rightarrow> 's pyfloat scored list" where
  "retrieve_from_pool f query_vec docs embeddings top_k filter_report_id =
     py_slice (sort_reverse score (scan_pool f query_vec filter_report_id (zip docs embeddings)))
       0 top_k"

subsection \<open>Answering\<close>

text \<open>The local variables of \<open>answer\<close>, in the order the function computes them.\<close>

definition report_results ::
  "('v, 's::linorder) env \<Rightarrow> 'v RAGEngine \<Rightarrow> 'v \<Rightarrow> pystr option \<Rightarrow> 's pyfloat scored list" where
  "report_results env self q_vec rid =
     (if truthy rid
      then retrieve_from_pool (dot env) q_vec (report_docs self) (report_embeddings self) 4 rid
      else [])"

definition base_results ::
  "('v, 's::linorder) env \<Rightarrow> 'v RAGEngine \<Rightarrow> 'v \<Rightarrow> 's pyfloat scored list" where
  "base_results env self q_vec =
     retrieve_from_pool (dot env) q_vec (base_docs self) (base_embeddings self) 2 None"

definition merged ::
  "('v, 's::linorder) env \<Rightarrow> 'v RAGEngine \<Rightarrow> 'v \<Rightarrow> pystr option \<Rightarrow> 's pyfloat scored list" where
  "merged env self q_vec rid = report_results env self q_vec rid @ base_results env self q_vec"

text \<open>\<open>r.get("filename") or r.get("title") or "Unknown source"\<close>.\<close>

definition src_label :: "'a doc_scheme \<Rightarrow> pystr" where
  "src_label r =
     (case filename r of
        Some f \<Rightarrow>
          (if f \<noteq> [] then f
           else if title r \<noteq> [] then title r
           else str ''Unknown source'')
      | None \<Rightarrow> (if title r \<noteq> [] then title r else str ''Unknown source''))"

definition block :: "'a doc_scheme \<Rightarrow> pystr" where
  "block r = str ''[Source: '' @ src_label r @ str '']'' @ [LF] @ doc_text r"

fun join :: "pystr \<Rightarrow> pystr list \<Rightarrow> pystr" where
  "join sep [] = []"
| "join sep [x] = x"
| "join sep (x # y # ys) = x @ sep @ join sep (y # ys)"

definition blocks :: "'a doc_scheme list \<Rightarrow> pystr list" where
  "blocks rs = map block rs"

definition context_str :: "'a doc_scheme list \<Rightarrow> pystr" where
  "context_str rs =
     (if rs = [] then str ''No relevant context found in the knowledge base.''
      else join ([LF, LF] @ str ''---'' @ [LF, LF]) (blocks rs))"

text \<open>\<open>f"{x}"\<close> for an \<open>Optional[str]\<close>.\<close>

definition fmt :: "pystr option \<Rightarrow> pystr" where
  "fmt x = (case x of None \<Rightarrow> str ''None'' | Some s \<Rightarrow> s)"

definition source_string :: "'a doc_scheme \<Rightarrow> pystr" where
  "source_string r =
     (if filename r \<noteq> None
      then fmt (filename r) @ str '' (report_id='' @ fmt (report_id r) @ str '')''
      else title r @ str '' (id='' @ doc_id r @ str '')'')"

definition sources :: "'a doc_scheme list \<Rightarrow> pystr list" where
  "sources rs = map source_string rs"

definition system_prompt :: "pystr option \<Rightarrow> pystr" where
  "system_prompt rid =
     (str ''You are a senior building science and strata engineering advisor. '' @
      str ''Your goal is to help PROJECT MANAGERS answer technical questions that '' @
      str ''they would normally ask an engineer or technician.'' @ [LF, LF] @
      str ''Use ONLY the provided context from reports and knowledge base. '' @
      str ''Be conservative; if the question requires detailed structural analysis '' @
      str ''or legal advice, clearly say it must be escalated to an engineer.'' @ [LF, LF] @
      str ''Always:'' @ [LF] @
      str ''- Explain in plain language first.'' @ [LF] @
      str ''- Then add a short technical note if needed.'' @ [LF] @
      str ''- Never give structural sign-off or legal advice.'') @
     (if truthy rid
      then [LF, LF] @ str ''A specific report is associated with this question. '' @
           str ''Give priority to information coming from that report when answering.''
      else [])"

definition user_prompt :: "pystr \<Rightarrow> pystr \<Rightarrow> pystr" where
  "user_prompt question ctx =
     str ''Question from project manager:'' @ [LF] @ question @ [LF, LF] @
     str ''Context from past reports and knowledge base:'' @ [LF] @ ctx @ [LF, LF] @
     str ''Answer in a way that a project manager can forward parts of it to a strata '' @
     str ''council or property manager.''"

definition messages :: "pystr option \<Rightarrow> message list option \<Rightarrow> pystr \<Rightarrow> pystr \<Rightarrow> message list" where
  "messages rid history question ctx =
     [\<lparr>role = str ''system'', content = system_prompt rid\<rparr>] @
     (case history of None \<Rightarrow> [] | Some h \<Rightarrow> h) @
     [\<lparr>role = str ''user'', content = user_prompt question ctx\<rparr>]"

text \<open>
  \<open>answer\<close> returns the outcome (the answer and the sources, or the error raised), the
  engine and the world as it leaves them.
\<close>

definition answer ::
  "('v, 's::linorder) env \<Rightarrow> 'v RAGEngine \<Rightarrow> world \<Rightarrow> pystr \<Rightarrow> message list option
     \<Rightarrow> pystr option \<Rightarrow> (error + pystr \<times> pystr list) \<times> 'v RAGEngine \<times> world" where
  "answer env self w question history rid =
     (case embed_query env w question of
        (Inl e, w') \<Rightarrow> (Inl e, self, w')
      | (Inr q_vec, w') \<Rightarrow>
          (let rs = merged env self q_vec rid
           in case chat_create env (messages rid history question (context_str rs)) of
                None \<Rightarrow> (Inl ProviderError, self, w')
              | Some a \<Rightarrow> (Inr (a, sources rs), self, w')))"

subsection \<open>The states an engine can reach\<close>

text \<open>
  An engine is constructed once, and then \<open>ingest_report\<close> and \<open>answer\<close> are called on
  it, whether they return normally or raise.
\<close>

inductive reachable :: "('v, 's::linorder) env \<Rightarrow> 'v RAGEngine \<Rightarrow> world \<Rightarrow> bool"
  for env :: "('v, 's::linorder) env" where
  construct: "RAGEngine_init env w = (Inr self, w') \<Longrightarrow> reachable env self w'"
| ingest: "reachable env self w \<Longrightarrow> ingest_report env self w fname t = Some (r, self', w')
     \<Longrightarrow> reachable env self' w'"
| ask: "reachable env self w \<Longrightarrow> answer env self w question history rid = (r, self', w')
     \<Longrightarrow> reachable env self' w'"

text \<open>
  The contract of the embedding service: a call that returns gives one embedding per
  input text.
\<close>

definition embed_contract :: "('v, 's) env \<Rightarrow> bool" where
  "embed_contract env \<longleftrightarrow>
     (\<forall>texts data. embeddings_create env texts = Some data \<longrightarrow> length data = length texts)"

text \<open>
  The documents \<open>ingest_report\<close> creates, and the invariant of the two pools: the base
  pool is the knowledge base, every report document was created by an ingestion, and
  documents and vectors are index-aligned (for the base pool this rests on the
  contract of the embedding service).
\<close>

definition new_doc_ok :: "pystr \<Rightarrow> pystr \<Rightarrow> doc \<Rightarrow> bool" where
  "new_doc_ok fname rid d \<longleftrightarrow>
     filename d = Some fname \<and> report_id d = Some rid \<and> title d = str ''Report: '' @ fname"

definition pools_ok :: "('v, 's) env \<Rightarrow> 'v RAGEngine \<Rightarrow> bool" where
  "pools_ok env self \<longleftrightarrow>
     base_docs self = KNOWLEDGE_CHUNKS \<and>
     length (report_docs self) = length (report_embeddings self) \<and>
     (\<forall>d \<in> set (report_docs self). \<exists>fname rid. new_doc_ok fname rid d) \<and>
     (embed_contract env \<longrightarrow> length (base_docs self) = length (base_embeddings self))"

text \<open>No score of the pool is NaN.\<close>

definition no_nan :: "('v \<Rightarrow> 'v \<Rightarrow> 's pyfloat) \<Rightarrow> 'v \<Rightarrow> 'v list \<Rightarrow> bool" where
  "no_nan f query_vec embeddings \<longleftrightarrow> (\<forall>vec \<in> set embeddings. f vec query_vec \<noteq> NaN)"

subsection \<open>A small environment for the examples\<close>

text \<open>
  An embedding service that returns the length of each text, a dot product on
  one-dimensional integer vectors, and UUIDs \<open>u\<close>, \<open>uu\<close>, \<open>uuu\<close>, ...
\<close>

definition env0 :: "(int, int) env" where
  "env0 = \<lparr>uuid4_src = (\<lambda>n. replicate (Suc n) 117),
            embeddings_create = (\<lambda>texts. Some (map (\<lambda>t. int (length t)) texts)),
            normalize = (\<lambda>v. v),
            dot = (\<lambda>v q. Val (v * q)),
            chat_create = (\<lambda>ms. Some (str ''ok''))\<rparr>"

definition world0 :: world where
  "world0 = \<lparr>uuid_ctr = 0, embed_calls = []\<rparr>"

text \<open>The engine built in \<open>env0\<close>, and the same engine after the report \<open>a.pdf\<close> with the
  text \<open>alpha\<close> has been ingested.\<close>

definition engine0 :: "int RAGEngine" where
  "engine0 = \<lparr>base_docs = KNOWLEDGE_CHUNKS, base_embeddings = [424, 378, 431, 409],
               report_docs = [], report_embeddings = []\<rparr>"

definition doc_a :: doc where
  "doc_a = \<lparr>doc_id = str ''uu'', title = str ''Report: a.pdf'', doc_text = str ''alpha'',
             report_id = Some (str ''u''), filename = Some (str ''a.pdf'')\<rparr>"

definition engine1 :: "int RAGEngine" where
  "engine1 = engine0\<lparr>report_docs := [doc_a], report_embeddings := [5]\<rparr>"

text \<open>Two more documents: one of another report, one without a report.\<close>

definition doc_b :: doc where
  "doc_b = \<lparr>doc_id = str ''b1'', title = str ''Report: b.pdf'', doc_text = str ''beta'',
             report_id = Some (str ''B''), filename = Some (str ''b.pdf'')\<rparr>"

definition doc_u :: doc where
  "doc_u = \<lparr>doc_id = str ''k1'', title = str ''Knowledge'', doc_text = str ''gamma'',
             report_id = None, filename = None\<rparr>"

definition world1 :: world where
  "world1 = \<lparr>uuid_ctr = 2, embed_calls = [map doc_text KNOWLEDGE_CHUNKS, [str ''alpha'']]\<rparr>"

text \<open>
  A score function with a NaN: the vector 0 stands for an embedding with a NaN
  component.
\<close>

definition dot_nan :: "int \<Rightarrow> int \<Rightarrow> int pyfloat" where
  "dot_nan v q = (if v = 0 then NaN else Val (v * q))"

text \<open>
  An embedding service that answers every call with an empty list, and the engine
  constructed with it.
\<close>

definition env_short :: "(int, int) env" where
  "env_short = env0\<lparr>embeddings_create := (\<lambda>texts. Some [])\<rparr>"

definition engine_short :: "int RAGEngine" where
  "engine_short = \<lparr>base_docs = KNOWLEDGE_CHUNKS, base_embeddings = [],
                    report_docs = [], report_embeddings = []\<rparr>"

section \<open>Properties of the chunker\<close>

lemma length_replace_crlf: "length (replace_crlf s) \<le> length s"
  by (induction s rule: replace_crlf.induct) auto

lemma py_slice_all: "py_slice xs 0 (int (length xs)) = xs"
  by (simp add: py_slice_def clamp_index_def)

lemma chunk_loop_returns:
  assumes "overlap < max_chars"
  shows "\<exists>r. chunk_loop text max_chars overlap start chunks = Some r"
proof (induction "nat (int (length text) - start)" arbitrary: start chunks rule: less_induct)
  case less
  show ?case
  proof (cases "start < int (length text) \<and> start + max_chars < int (length text)")
    case True
    then have "nat (int (length text) - (start + max_chars - overlap)) < nat (int (length text) - start)"
      using assms by linarith
    from less [OF this] True show ?thesis
      by (subst chunk_loop.simps) (simp add: Let_def min_def)
  next
    case False
    then show ?thesis
      by (subst chunk_loop.simps) (auto simp add: Let_def min_def)
  qed
qed

lemma chunk_loop_stuck:
  assumes "chunk_loop t m ov s cs = Some r"
  shows "\<not> stuck t m ov s"
proof (rule chunk_loop.raw_induct [where P = "\<lambda>t m ov s cs r. \<not> stuck t m ov s", OF _ assms])
  fix f :: "pystr \<Rightarrow> int \<Rightarrow> int \<Rightarrow> int \<Rightarrow> pystr list \<Rightarrow> pystr list option"
  fix t m ov s cs r
  assume IH: "\<And>t m ov s cs r. f t m ov s cs = Some r \<Longrightarrow> \<not> stuck t m ov s"
  assume step: "(if s < int (length t) then
        (let end = min (s + m) (int (length t));
             chunk = py_slice t s end;
             chunks' = cs @ [strip chunk]
         in if end = int (length t) then Some chunks'
            else f t m ov (end - ov) chunks')
      else Some cs) = Some r"
  show "\<not> stuck t m ov s"
  proof
    assume inv: "stuck t m ov s"
    then have "0 < int (length t)" by (simp add: stuck_def)
    with inv have "s < int (length t)" and "min (s + m) (int (length t)) = s + m"
      and "s + m \<noteq> int (length t)"
      unfolding stuck_def by linarith+
    with step have "f t m ov (s + m - ov) (cs @ [strip (py_slice t s (s + m))]) = Some r"
      by (simp add: Let_def)
    from IH [OF this] inv show False unfolding stuck_def by linarith
  qed
qed

lemma chunk_loop_first_window:
  assumes "text \<noteq> []" "int (length text) \<le> max_chars"
  shows "chunk_loop text max_chars overlap 0 [] = Some [strip text]"
  using assms by (subst chunk_loop.simps) (simp add: Let_def min_def py_slice_all)

lemma chunk_loop_empty: "chunk_loop [] max_chars overlap 0 chunks = Some chunks"
  by (subst chunk_loop.simps) simp


lemma ceil_div_step:
  fixes x d :: int
  assumes "0 < d" "d < x"
  shows "nat (- (- x div d)) = Suc (nat (- (- (x - d) div d)))"
proof -
  have "- x = - (x - d) + - 1 * d" by simp
  then have "- x div d = - (x - d) div d - 1"
    using assms by (metis div_mult_self1 add.commute less_irrefl mult.commute uminus_add_conv_diff mult_minus1)
  moreover have "- (x - d) div d < 0" using assms by (simp add: div_neg_pos_less0)
  ultimately show ?thesis by linarith
qed

lemma ceil_div_one:
  fixes x d :: int
  assumes "0 < x" "x \<le> d"
  shows "nat (- (- x div d)) = 1"
proof -
  have "- x div d = - 1"
    using assms by (smt (verit) div_pos_neg_trivial zdiv_zminus1_eq_if div_pos_pos_trivial div_self mod_self mod_pos_pos_trivial)
  then show ?thesis by simp
qed

lemma chunk_loop_windows:
  assumes "0 \<le> ov" "ov < m"
  shows "0 \<le> s \<Longrightarrow> s + ov < int (length t) \<Longrightarrow>
    chunk_loop t m ov s cs =
      Some (cs @ map (\<lambda>k. strip (py_slice t (s + int k * (m - ov)) (min (s + int k * (m - ov) + m) (int (length t)))))
                  [0..<nat (- (- (int (length t) - s - ov) div (m - ov)))])"
proof (induction "nat (int (length t) - s)" arbitrary: s cs rule: less_induct)
  case less
  define L where "L = int (length t)"
  define f where "f = (\<lambda>s k. strip (py_slice t (s + int k * (m - ov)) (min (s + int k * (m - ov) + m) L)))"
  define K where "K = (\<lambda>s. nat (- (- (L - s - ov) div (m - ov))))"
  have sL: "s < L" using less.prems assms by (simp add: L_def)
  have f0: "f s 0 = strip (py_slice t s (min (s + m) L))" by (simp add: f_def)
  have shift: "f s (Suc k) = f (s + m - ov) k" for k
    by (simp add: f_def algebra_simps)
  have goal: "chunk_loop t m ov s cs = Some (cs @ map (f s) [0..<K s])"
  proof (cases "s + m < L")
    case True
    let ?s' = "s + m - ov"
    have m1: "nat (int (length t) - ?s') < nat (int (length t) - s)"
      using assms sL by (simp add: L_def)
    have p1: "0 \<le> ?s'" using assms less.prems by linarith
    have p2: "?s' + ov < int (length t)" using True by (simp add: L_def)
    have KS: "K s = Suc (K ?s')"
      using ceil_div_step [of "m - ov" "L - s - ov"] assms True
      by (simp add: K_def algebra_simps)
    have "chunk_loop t m ov s cs = chunk_loop t m ov ?s' (cs @ [strip (py_slice t s (s + m))])"
      using True sL by (subst chunk_loop.simps) (simp add: Let_def min_def L_def)
    also have "\<dots> = Some ((cs @ [strip (py_slice t s (s + m))]) @ map (f ?s') [0..<K ?s'])"
      unfolding f_def K_def L_def by (rule less.hyps [OF m1 p1 p2])
    also have "(cs @ [strip (py_slice t s (s + m))]) @ map (f ?s') [0..<K ?s'] = cs @ map (f s) [0..<K s]"
      using True by (simp only: KS map_upt_Suc f0 shift) (simp add: min_def)
    finally show ?thesis .
  next
    case False
    have KS: "K s = 1"
      using ceil_div_one [of "L - s - ov" "m - ov"] less.prems False by (simp add: K_def L_def)
    have "chunk_loop t m ov s cs = Some (cs @ [strip (py_slice t s L)])"
      using False sL by (subst chunk_loop.simps) (simp add: Let_def min_def L_def)
    then show ?thesis
      using False by (simp add: KS f0 min_def)
  qed
  then show ?case by (simp add: f_def K_def L_def)
qed


lemma chunk_text_stuck:
  assumes "stuck (replace_crlf t) m ov 0"
  shows "chunk_text t m ov = None"
proof (cases "chunk_loop (replace_crlf t) m ov 0 []")
  case None
  then show ?thesis by (simp add: chunk_text_def)
next
  case (Some r)
  from chunk_loop_stuck [OF this] assms show ?thesis by simp
qed

text \<open>
  Claim C2, amended. \<open>chunk_text\<close> returns exactly when the window can advance
  (\<open>overlap < max_chars\<close>), or the first window already reaches the end of the
  normalized text, or that text is empty. In every other case, that is when
  \<open>overlap \<ge> max_chars\<close> and the text is non-empty and longer than \<open>max_chars\<close>, the
  loop never
  reaches its \<open>break\<close> and the function does not return.
\<close>

theorem chunk_text_returns_iff:
  "(\<exists>chunks. chunk_text text max_chars overlap = Some chunks) \<longleftrightarrow>
     overlap < max_chars \<or> int (length (replace_crlf text)) \<le> max_chars \<or> replace_crlf text = []"
proof (cases "overlap < max_chars \<or> int (length (replace_crlf text)) \<le> max_chars \<or> replace_crlf text = []")
  case True
  then consider "overlap < max_chars" | "replace_crlf text = []"
    | "replace_crlf text \<noteq> []" "int (length (replace_crlf text)) \<le> max_chars"
    by blast
  then have "\<exists>r. chunk_loop (replace_crlf text) max_chars overlap 0 [] = Some r"
  proof cases
    case 1
    then show ?thesis by (rule chunk_loop_returns)
  next
    case 2
    then show ?thesis by (simp add: chunk_loop_empty)
  next
    case 3
    then show ?thesis by (simp add: chunk_loop_first_window)
  qed
  with True show ?thesis by (auto simp add: chunk_text_def)
next
  case False
  then have "stuck (replace_crlf text) max_chars overlap 0"
    by (simp add: stuck_def)
  then have "chunk_text text max_chars overlap = None" by (rule chunk_text_stuck)
  with False show ?thesis by simp
qed

text \<open>
  Both sides at concrete inputs: an advancing window, and \<open>overlap > max_chars\<close> with a
  text that fits one window.
\<close>

theorem chunk_text_returns_iff_witness:
  "(\<exists>chunks. chunk_text (str ''hello world'') 8 3 = Some chunks) \<and>
   (\<exists>chunks. chunk_text (str ''hello'') 5 7 = Some chunks)"
  using chunk_text_returns_iff [of "str ''hello world''" 8 3]
    chunk_text_returns_iff [of "str ''hello''" 5 7]
  by (simp add: str_def CR_def LF_def)

text \<open>
  Claim C2 as stated fails: with \<open>max_chars = overlap = 5\<close> and a text of ten
  characters the start index stays at 0 and \<open>chunk_text\<close> does not return.
\<close>

theorem chunk_text_loops_counterexample:
  "chunk_text (str ''aaaaaaaaaa'') 5 5 = None"
  by (rule chunk_text_stuck) (simp add: stuck_def str_def CR_def LF_def)

text \<open>
  Claim C5, amended. For a string shorter than \<open>max_chars\<close>, \<open>chunk_text\<close> returns the
  trimmed text after CRLF has been replaced by LF, as its only chunk, unless that is
  empty: then it returns no chunk at all.
\<close>

theorem chunk_text_short:
  assumes "int (length text) < max_chars"
  shows "chunk_text text max_chars overlap =
    Some (if strip (replace_crlf text) = [] then [] else [strip (replace_crlf text)])"
proof (cases "replace_crlf text = []")
  case True
  then show ?thesis by (simp add: chunk_text_def chunk_loop_empty strip_def)
next
  case False
  moreover have "int (length (replace_crlf text)) \<le> max_chars"
    using assms length_replace_crlf [of "text"] by linarith
  ultimately show ?thesis by (simp add: chunk_text_def chunk_loop_first_window)
qed

text \<open>The amended claim C5 at a string with spaces around it.\<close>

theorem chunk_text_short_witness:
  "int (length (str '' a b '')) < 1200 \<and> chunk_text (str '' a b '') 1200 200 = Some [str ''a b'']"
  using chunk_text_short [of "str '' a b ''" 1200 200]
  by (simp add: str_def strip_def isspace_def CR_def LF_def)

text \<open>
  Claim C5 as stated fails twice: a string of two spaces gives no chunk, and in
  \<open>"a\r\nb"\<close> the chunk is not the trimmed input, since CRLF has become LF.
\<close>

theorem chunk_text_short_counterexample:
  "chunk_text (str ''  '') 1200 200 \<noteq> Some [strip (str ''  '')] \<and>
   chunk_text (str ''a'' @ [CR, LF] @ str ''b'') 1200 200
     \<noteq> Some [strip (str ''a'' @ [CR, LF] @ str ''b'')]"
  by (simp add: chunk_text_def chunk_loop.simps py_slice_def clamp_index_def str_def strip_def isspace_def CR_def LF_def)


lemma py_slice_inside:
  assumes "0 \<le> a" "a \<le> b" "b \<le> int (length xs)"
  shows "py_slice xs a b = take (nat b - nat a) (drop (nat a) xs)"
proof -
  have "clamp_index (length xs) a = nat a" "clamp_index (length xs) b = nat b"
    using assms by (auto simp add: clamp_index_def min_def)
  then show ?thesis by (simp add: py_slice_def Let_def)
qed

lemma spec_chunk_count_div:
  "spec_chunk_count L max_chars overlap = nat (- (- (int L - overlap) div (max_chars - overlap)))"
  unfolding spec_chunk_count_def by (simp only: ceiling_divide_eq_div)

lemma ceiling_gt_imp:
  fixes x d :: int
  assumes "0 < d" "int (Suc k) < - (- x div d)"
  shows "int (Suc k) * d < x"
proof (rule ccontr)
  assume "\<not> int (Suc k) * d < x"
  then have "- (int (Suc k) * d) \<le> - x" by simp
  then have "(- (int (Suc k) * d)) div d \<le> - x div d"
    using assms(1) by (rule zdiv_mono1)
  moreover have "(- (int (Suc k) * d)) div d = - int (Suc k)"
    using assms(1) by (metis less_irrefl mult_minus_left nonzero_mult_div_cancel_right)
  ultimately show False using assms(2) by linarith
qed

lemma window_overlap:
  assumes ov: "0 \<le> overlap" "overlap < max_chars"
    and k: "Suc k < spec_chunk_count (length t) max_chars overlap"
  shows "length (window t max_chars overlap k) = nat max_chars"
    and "drop (nat (max_chars - overlap)) (window t max_chars overlap k)
         = take (nat overlap) (window t max_chars overlap (Suc k))"
    and "length (take (nat overlap) (window t max_chars overlap (Suc k))) = nat overlap"
proof -
  define d where "d = max_chars - overlap"
  define L where "L = int (length t)"
  have d: "0 < d" using ov by (simp add: d_def)
  have "int (Suc k) < - (- (L - overlap) div d)"
    using k by (simp add: spec_chunk_count_div d_def L_def)
  from ceiling_gt_imp [OF d this] have lt: "int (Suc k) * d + overlap < L" by simp
  have kd: "0 \<le> int k * d" using d by simp
  have e: "int k * d + max_chars < L" using lt by (simp add: d_def algebra_simps)
  have w: "window t max_chars overlap k = take (nat max_chars) (drop (nat (int k * d)) t)"
  proof -
    have "window t max_chars overlap k = py_slice t (int k * d) (int k * d + max_chars)"
      using e by (simp add: window_def d_def L_def min_def)
    also have "\<dots> = take (nat (int k * d + max_chars) - nat (int k * d)) (drop (nat (int k * d)) t)"
      using kd ov e by (intro py_slice_inside) (simp_all add: L_def)
    also have "nat (int k * d + max_chars) - nat (int k * d) = nat max_chars"
      using kd ov by linarith
    finally show ?thesis .
  qed
  define e' where "e' = min (int (Suc k) * d + max_chars) L"
  have e'1: "int (Suc k) * d + overlap < e'" using lt ov by (simp add: e'_def)
  have e'2: "e' \<le> L" by (simp add: e'_def)
  have sk: "0 \<le> int (Suc k) * d" using d by simp
  have w': "window t max_chars overlap (Suc k) = take (nat e' - nat (int (Suc k) * d)) (drop (nat (int (Suc k) * d)) t)"
  proof -
    have "window t max_chars overlap (Suc k) = py_slice t (int (Suc k) * d) e'"
      by (simp add: window_def d_def L_def e'_def)
    also have "\<dots> = take (nat e' - nat (int (Suc k) * d)) (drop (nat (int (Suc k) * d)) t)"
      using sk e'1 e'2 ov by (intro py_slice_inside) (simp_all add: L_def)
    finally show ?thesis .
  qed
  have n1: "nat (int (Suc k) * d) = nat (int k * d) + nat d"
    using d kd by (simp add: nat_add_distrib algebra_simps)
  define a where "a = nat (int k * d)"
  define a' where "a' = nat (int (Suc k) * d)"
  have a': "a' = a + nat d" unfolding a_def a'_def by (rule n1)
  have n2: "nat overlap \<le> nat e' - nat (int (Suc k) * d)"
    using e'1 sk ov by linarith
  have n3: "nat max_chars - nat d = nat overlap" using ov d by (simp add: d_def)
  have n4: "nat e' \<le> length t" using e'2 by (simp add: L_def)
  show "length (window t max_chars overlap k) = nat max_chars"
    using e kd ov unfolding w by (simp add: L_def)
  show "drop (nat (max_chars - overlap)) (window t max_chars overlap k)
         = take (nat overlap) (window t max_chars overlap (Suc k))"
    unfolding w w' d_def [symmetric] a_def [symmetric] a'_def [symmetric]
    using n2 unfolding a'_def [symmetric] by (simp add: drop_take a' n3 add.commute min_def)
  show "length (take (nat overlap) (window t max_chars overlap (Suc k))) = nat overlap"
    unfolding w' using n2 n4 sk e'1 by (simp add: min_def)
qed

text \<open>
  Claim C4, amended. For \<open>0 \<le> overlap < max_chars\<close> and a normalized text of length
  \<open>L > max_chars\<close>, the loop makes exactly \<open>ceil((L - overlap) / (max_chars - overlap))\<close>
  windows, the \<open>k\<close>-th starting at \<open>k * (max_chars - overlap)\<close>; \<open>chunk_text\<close> returns them
  trimmed, in order, without the empty ones. Every window but the last has \<open>max_chars\<close>
  characters, and its last \<open>overlap\<close> characters are the first \<open>overlap\<close> characters of
  the next window.
\<close>

theorem chunk_text_windows:
  assumes "0 \<le> overlap" "overlap < max_chars"
    and "max_chars < int (length (replace_crlf text))"
  shows "chunk_text text max_chars overlap =
      Some (filter (\<lambda>c. c \<noteq> [])
        (map (\<lambda>k. strip (window (replace_crlf text) max_chars overlap k))
          [0..<spec_chunk_count (length (replace_crlf text)) max_chars overlap]))
    \<and> (\<forall>k. Suc k < spec_chunk_count (length (replace_crlf text)) max_chars overlap \<longrightarrow>
          length (window (replace_crlf text) max_chars overlap k) = nat max_chars \<and>
          length (take (nat overlap) (window (replace_crlf text) max_chars overlap (Suc k))) = nat overlap \<and>
          drop (nat (max_chars - overlap)) (window (replace_crlf text) max_chars overlap k)
            = take (nat overlap) (window (replace_crlf text) max_chars overlap (Suc k)))"
proof -
  have "chunk_loop (replace_crlf text) max_chars overlap 0 [] =
      Some (map (\<lambda>k. strip (window (replace_crlf text) max_chars overlap k))
          [0..<spec_chunk_count (length (replace_crlf text)) max_chars overlap])"
    using chunk_loop_windows [OF assms(1,2), of 0 "replace_crlf text" "[]"] assms
    by (simp add: window_def spec_chunk_count_div)
  then show ?thesis
    using window_overlap [OF assms(1,2)] by (simp add: chunk_text_def)
qed

text \<open>The amended claim C4 at ten letters, \<open>max_chars = 4\<close> and \<open>overlap = 1\<close>.\<close>

theorem chunk_text_windows_witness:
  "(0::int) \<le> 1 \<and> (1::int) < 4 \<and> 4 < int (length (replace_crlf (str ''abcdefghij''))) \<and>
   spec_chunk_count (length (replace_crlf (str ''abcdefghij''))) 4 1 = 3 \<and>
   chunk_text (str ''abcdefghij'') 4 1 = Some [str ''abcd'', str ''defg'', str ''ghij'']"
  using chunk_text_windows [of 1 4 "str ''abcdefghij''"]
  by (simp add: str_def CR_def LF_def spec_chunk_count_div window_def py_slice_def clamp_index_def
        strip_def isspace_def upt_rec)

text \<open>
  Claim C4 as stated fails: the middle window of this text is blank and is dropped, so
  two chunks are returned where the formula gives three, and they share no character.
\<close>

theorem chunk_text_count_counterexample:
  "chunk_text (str ''ab      cd'') 4 1 = Some [str ''ab'', str ''cd''] \<and>
   spec_chunk_count (length (str ''ab      cd'')) 4 1 = 3"
  by (simp add: chunk_text_def chunk_loop.simps py_slice_def clamp_index_def str_def strip_def
        isspace_def CR_def LF_def spec_chunk_count_div)

section \<open>Properties of retrieval\<close>

lemma clamp_index_0: "clamp_index n 0 = 0"
  by (simp add: clamp_index_def)

lemma py_slice_prefix: "py_slice xs 0 k = take (clamp_index (length xs) k) xs"
  by (simp add: py_slice_def clamp_index_0 Let_def)

lemma length_py_slice_prefix:
  "0 \<le> k \<Longrightarrow> int (length (py_slice xs 0 k)) \<le> k"
  by (simp add: py_slice_prefix clamp_index_def)

lemma truncate_extend: "doc.truncate (doc.extend d x) = d"
  by (simp add: doc.defs)

lemma report_id_extend: "report_id (doc.extend d x) = report_id d"
  by (simp add: doc.defs)


lemma score_extend: "score (doc.extend d \<lparr>score = s\<rparr>) = s"
  by (simp add: doc.defs)

lemma scan_pool_eq:
  "scan_pool f q flt ps =
     map (\<lambda>(d, v). doc.extend d \<lparr>score = f v q\<rparr>)
       (filter (\<lambda>(d, v). \<not> (truthy flt \<and> report_id d \<noteq> flt)) ps)"
proof (induction ps)
  case Nil
  show ?case by simp
next
  case (Cons p ps)
  obtain d v where p: "p = (d, v)" by (cases p)
  show ?case
    unfolding p using Cons by (cases "truthy flt \<and> report_id d \<noteq> flt") simp_all
qed

lemma scan_pool_set:
  assumes "r \<in> set (scan_pool f q flt ps)"
  shows "\<exists>d v. (d, v) \<in> set ps \<and> r = doc.extend d \<lparr>score = f v q\<rparr> \<and>
       (truthy flt \<longrightarrow> report_id d = flt)"
  using assms unfolding scan_pool_eq by auto

lemma scan_pool_filter:
  "scan_pool f q flt ps =
     scan_pool f q None (filter (\<lambda>(d, v). \<not> (truthy flt \<and> report_id d \<noteq> flt)) ps)"
  unfolding scan_pool_eq [of f q flt] scan_pool_eq [of f q None]
  by (simp add: truthy_def)

lemma scan_pool_falsy: "\<not> truthy flt \<Longrightarrow> scan_pool f q flt ps = scan_pool f q None ps"
  unfolding scan_pool_eq [of f q flt] scan_pool_eq [of f q None]
  by (simp add: truthy_def)

lemma float_not_lt_ge: "a \<noteq> NaN \<Longrightarrow> b \<noteq> NaN \<Longrightarrow> \<not> float_lt a b \<Longrightarrow> float_ge a b"
  by (cases a; cases b) auto

lemma float_lt_ge: "float_lt a b \<Longrightarrow> float_ge b a"
  by (cases a; cases b) auto

lemma float_ge_trans: "float_ge a b \<Longrightarrow> float_ge b c \<Longrightarrow> float_ge a c"
  by (cases a; cases b; cases c) auto

lemma set_insort_lt: "set (insort_lt key x ys) = insert x (set ys)"
  by (induction ys) auto

lemma set_sort_lt: "set (sort_lt key xs) = set xs"
  unfolding sort_lt_def by (induction xs) (simp_all add: set_insort_lt)

text \<open>A list in which no key is less than the key before it is returned as it is.\<close>

lemma sort_lt_run:
  "successively (\<lambda>a b. \<not> float_lt (key b) (key a)) xs \<Longrightarrow> sort_lt key xs = xs"
proof (induction xs)
  case Nil
  show ?case by (simp add: sort_lt_def)
next
  case (Cons x xs)
  then have "sort_lt key xs = xs" by (cases xs) simp_all
  then have "sort_lt key (x # xs) = insort_lt key x xs" by (simp add: sort_lt_def)
  with Cons.prems show ?case by (cases xs) simp_all
qed

lemma sorted_insort_lt:
  assumes "key x \<noteq> NaN" "\<forall>y \<in> set ys. key y \<noteq> NaN"
    and "sorted_wrt (\<lambda>a b. float_ge (key b) (key a)) ys"
  shows "sorted_wrt (\<lambda>a b. float_ge (key b) (key a)) (insort_lt key x ys)"
  using assms
proof (induction ys)
  case Nil
  then show ?case by simp
next
  case (Cons y ys)
  show ?case
  proof (cases "float_lt (key y) (key x)")
    case True
    then have "float_ge (key x) (key y)" by (rule float_lt_ge)
    with True Cons show ?thesis by (simp add: set_insort_lt)
  next
    case False
    with Cons.prems have yx: "float_ge (key y) (key x)"
      by (intro float_not_lt_ge) simp_all
    have "float_ge (key z) (key x)" if "z \<in> set ys" for z
      using that Cons.prems(3) yx by (auto intro: float_ge_trans)
    with False yx Cons.prems(3) show ?thesis by simp
  qed
qed

lemma sorted_sort_lt:
  assumes "\<forall>x \<in> set xs. key x \<noteq> NaN"
  shows "sorted_wrt (\<lambda>a b. float_ge (key b) (key a)) (sort_lt key xs)"
  using assms
proof (induction xs)
  case Nil
  show ?case by (simp add: sort_lt_def)
next
  case (Cons x xs)
  then have "sorted_wrt (\<lambda>a b. float_ge (key b) (key a)) (sort_lt key xs)" by simp
  with Cons.prems have "sorted_wrt (\<lambda>a b. float_ge (key b) (key a))
      (insort_lt key x (sort_lt key xs))"
    by (intro sorted_insort_lt) (simp_all add: set_sort_lt)
  then show ?case by (simp add: sort_lt_def)
qed

lemma sorted_sort_reverse:
  assumes "\<forall>x \<in> set xs. key x \<noteq> NaN"
  shows "sorted_wrt (\<lambda>a b. float_ge (key a) (key b)) (sort_reverse key xs)"
proof -
  from assms have "sorted_wrt (\<lambda>a b. float_ge (key b) (key a)) (sort_lt key (rev xs))"
    by (intro sorted_sort_lt) simp
  then show ?thesis by (simp add: sort_reverse_def sorted_wrt_rev)
qed

lemma set_sort_reverse: "set (sort_reverse key xs) = set xs"
  by (simp add: sort_reverse_def set_sort_lt)

lemma length_insort_lt: "length (insort_lt key x ys) = Suc (length ys)"
  by (induction ys) auto

lemma length_sort_reverse: "length (sort_reverse key xs) = length xs"
proof -
  have "length (sort_lt key ys) = length ys" for ys
    unfolding sort_lt_def by (induction ys) (simp_all add: length_insort_lt)
  then show ?thesis by (simp add: sort_reverse_def)
qed

lemma set_py_slice_prefix: "set (py_slice xs 0 k) \<subseteq> set xs"
  by (simp add: py_slice_prefix set_take_subset)

lemma retrieve_set:
  assumes "r \<in> set (retrieve_from_pool f q docs embs k flt)"
  shows "\<exists>d v. (d, v) \<in> set (zip docs embs) \<and> r = doc.extend d \<lparr>score = f v q\<rparr> \<and>
       (truthy flt \<longrightarrow> report_id d = flt)"
proof -
  from assms have "r \<in> set (scan_pool f q flt (zip docs embs))"
    using set_py_slice_prefix set_sort_reverse unfolding retrieve_from_pool_def by fastforce
  then show ?thesis by (rule scan_pool_set)
qed

lemma scan_pool_no_nan:
  assumes "no_nan f q embs" "r \<in> set (scan_pool f q flt (zip docs embs))"
  shows "score r \<noteq> NaN"
proof -
  from scan_pool_set [OF assms(2)] obtain d v where
    dv: "(d, v) \<in> set (zip docs embs)" "r = doc.extend d \<lparr>score = f v q\<rparr>"
    by blast
  from dv(1) have "v \<in> set embs" by (rule set_zip_rightD)
  with assms(1) dv(2) show ?thesis by (simp add: no_nan_def score_extend)
qed

lemma retrieve_sorted:
  assumes "no_nan f q embs"
  shows "sorted_wrt (\<lambda>a b. float_ge (score a) (score b)) (retrieve_from_pool f q docs embs k flt)"
  unfolding retrieve_from_pool_def py_slice_prefix
  using scan_pool_no_nan [OF assms]
  by (intro sorted_wrt_take sorted_sort_reverse) blast

lemma retrieve_length:
  "0 \<le> k \<Longrightarrow> int (length (retrieve_from_pool f q docs embs k flt)) \<le> k"
  unfolding retrieve_from_pool_def by (rule length_py_slice_prefix)

section \<open>Claims about a pool search\<close>

text \<open>The definitions unfolded to run a search on explicit documents.\<close>

lemmas eval_defs = retrieve_from_pool_def sort_reverse_def sort_lt_def py_slice_def clamp_index_def
  truthy_def doc.defs scored.defs str_def doc_a_def doc_b_def doc_u_def Let_def

lemma zip_filter_fst_snd:
  "zip (map fst (filter P ps)) (map snd (filter P ps)) = filter P ps"
  by (simp add: zip_map_fst_snd)

text \<open>
  Claim C1, amended. For every non-empty report identifier \<open>A\<close>, every result of a search
  filtered to \<open>A\<close> is a copy of a document of the pool whose \<open>report_id\<close> is \<open>A\<close>: never a
  document of another report \<open>B\<close>, never one without \<open>report_id\<close>. The search returns
  what an unfiltered search returns on the documents of the pool whose \<open>report_id\<close> is
  \<open>A\<close>, so no other document is considered.
\<close>

theorem retrieve_filter_isolation:
  assumes "A \<noteq> []"
  shows "(\<forall>r \<in> set (retrieve_from_pool f q docs embeddings top_k (Some A)).
            report_id r = Some A \<and> doc.truncate r \<in> set docs) \<and>
         retrieve_from_pool f q docs embeddings top_k (Some A) =
           retrieve_from_pool f q
             (map fst (filter (\<lambda>(d, v). report_id d = Some A) (zip docs embeddings)))
             (map snd (filter (\<lambda>(d, v). report_id d = Some A) (zip docs embeddings)))
             top_k None"
proof -
  have t: "truthy (Some A)" using assms by (simp add: truthy_def)
  have "report_id r = Some A \<and> doc.truncate r \<in> set docs"
    if "r \<in> set (retrieve_from_pool f q docs embeddings top_k (Some A))" for r
  proof -
    from retrieve_set [OF that] t obtain d v where
      dv: "(d, v) \<in> set (zip docs embeddings)" "r = doc.extend d \<lparr>score = f v q\<rparr>"
        "report_id d = Some A"
      by blast
    from dv(1) have "d \<in> set docs" by (rule set_zip_leftD)
    with dv(2,3) show ?thesis by (simp add: truncate_extend report_id_extend)
  qed
  moreover have "scan_pool f q (Some A) (zip docs embeddings) =
      scan_pool f q None (filter (\<lambda>(d, v). report_id d = Some A) (zip docs embeddings))"
    using t by (subst scan_pool_filter) simp
  ultimately show ?thesis
    by (simp add: retrieve_from_pool_def zip_filter_fst_snd)
qed

text \<open>The amended claim C1 on a pool of three documents, one of them of report \<open>u\<close>.\<close>

theorem retrieve_filter_isolation_witness:
  "str ''u'' \<noteq> [] \<and>
   map report_id (retrieve_from_pool (\<lambda>v q. Val (v * q)) (1::int) [doc_a, doc_b, doc_u] [1, 2, 3] 3
     (Some (str ''u''))) = [Some (str ''u'')]"
  using retrieve_filter_isolation [of "str ''u''" "\<lambda>v q. Val (v * q)" "1::int" "[doc_a, doc_b, doc_u]" "[1, 2, 3]" 3]
  by (simp add: eval_defs)

text \<open>
  Claim C1 as stated fails for the identifier \<open>A = ""\<close>: the test
  \<open>if filter_report_id and ...\<close> takes the empty string for no filter, and the search
  returns a document of report \<open>B\<close> and a document without \<open>report_id\<close>.
\<close>

theorem retrieve_empty_filter_counterexample:
  "map report_id (retrieve_from_pool (\<lambda>v q. Val (v * q)) (1::int) [doc_b, doc_u] [2, 3] 3 (Some []))
     = [None, Some (str ''B'')]"
  by (simp add: eval_defs)

lemma retrieve_length_negative:
  assumes "top_k < 0"
  shows "int (length (retrieve_from_pool f q docs embeddings top_k flt)) =
    max 0 (int (length (scan_pool f q flt (zip docs embeddings))) + top_k)"
  using assms
  by (simp add: retrieve_from_pool_def py_slice_prefix clamp_index_def length_sort_reverse)

text \<open>
  Claim C6, amended. A search with \<open>top_k \<ge> 0\<close> returns at most \<open>top_k\<close> results. No length
  is at most a negative \<open>top_k\<close>: then \<open>scored[:top_k]\<close> drops the last \<open>-top_k\<close> of the
  documents considered. When no score of the pool is NaN the scores of the results are
  non-increasing, each being \<open>>=\<close> every later one, for every \<open>top_k\<close>.
\<close>

theorem retrieve_ranked:
  "(0 \<le> top_k \<longrightarrow> int (length (retrieve_from_pool f q docs embeddings top_k flt)) \<le> top_k) \<and>
   (top_k < 0 \<longrightarrow>
      int (length (retrieve_from_pool f q docs embeddings top_k flt)) =
        max 0 (int (length (scan_pool f q flt (zip docs embeddings))) + top_k)) \<and>
   (no_nan f q embeddings \<longrightarrow>
      sorted_wrt (\<lambda>a b. float_ge (score a) (score b))
        (retrieve_from_pool f q docs embeddings top_k flt))"
  using retrieve_sorted [of f q embeddings docs top_k flt]
    retrieve_length [of top_k f q docs embeddings flt]
    retrieve_length_negative [of top_k f q docs embeddings flt]
  by simp

text \<open>The amended claim C6 on three documents with the scores 1, 3, 2 and \<open>top_k = 2\<close>.\<close>

theorem retrieve_ranked_witness:
  "map score (retrieve_from_pool (\<lambda>v q. Val (v * q)) (1::int) [doc_a, doc_b, doc_u] [1, 3, 2] 2 None)
     = [Val 3, Val 2] \<and>
   float_ge (Val (3::int)) (Val 2)"
  using retrieve_ranked [of 2 "\<lambda>v q. Val (v * q)" "1::int" "[doc_a, doc_b, doc_u]" "[1, 3, 2]" None]
  by (simp add: eval_defs no_nan_def)

text \<open>
  Claim C6 as stated fails when a score is NaN: every comparison with NaN is false, the
  sort leaves the scores 1, NaN, 2 as they are, and the result is not in descending
  order: its first score is less than its last.
\<close>

theorem retrieve_nan_unsorted_counterexample:
  "map score (retrieve_from_pool dot_nan 1 [doc_a, doc_b, doc_u] [1, 0, 2] 3 None)
     = [Val 1, NaN, Val 2] \<and>
   float_lt (Val (1::int)) (Val 2) \<and>
   \<not> sorted_wrt float_ge [Val 1, NaN, Val (2::int)]"
  by (simp add: eval_defs dot_nan_def)

section \<open>Claims about the merge of the two searches\<close>

lemma retrieve_falsy:
  "\<not> truthy flt \<Longrightarrow>
     retrieve_from_pool f q docs embeddings top_k flt =
     retrieve_from_pool f q docs embeddings top_k None"
  by (simp add: retrieve_from_pool_def scan_pool_falsy)

lemma scan_pool_empty_filter:
  "scan_pool f q (Some []) ps = map (\<lambda>(d, v). doc.extend d \<lparr>score = f v q\<rparr>) ps"
  unfolding scan_pool_eq by (simp add: truthy_def)

lemma length_py_slice_prefix_eq:
  "0 \<le> k \<Longrightarrow> length (py_slice xs 0 k) = min (nat k) (length xs)"
  by (simp add: py_slice_prefix clamp_index_def)

lemma py_slice_prefix_all: "int (length xs) \<le> k \<Longrightarrow> py_slice xs 0 k = xs"
  by (simp add: py_slice_prefix clamp_index_def)

lemma truncate_scored_image:
  "doc.truncate ` (\<lambda>(d, v). doc.extend d \<lparr>score = f v q\<rparr>) ` S = fst ` S"
  by (force simp add: truncate_extend image_iff)

text \<open>
  Claim C10. The empty string as report identifier is treated as absent. A pool search
  with the filter \<open>""\<close> skips no document: it scores every document of the pool that has
  a vector, whatever its \<open>report_id\<close>, and returns the first \<open>top_k\<close> of them in sorted
  order, which is what the unfiltered search returns; with a \<open>top_k\<close> as large as the pool
  it returns every document. \<open>answer\<close> with \<open>report_id = ""\<close> has no report results, its
  merged results are the base results, and it returns what \<open>answer\<close> without a report
  identifier returns.
\<close>

theorem empty_report_id_is_absent:
  "scan_pool f q (Some []) (zip docs embeddings) =
     map (\<lambda>(d, v). doc.extend d \<lparr>score = f v q\<rparr>) (zip docs embeddings) \<and>
   retrieve_from_pool f q docs embeddings top_k (Some []) =
     py_slice (sort_reverse score
       (map (\<lambda>(d, v). doc.extend d \<lparr>score = f v q\<rparr>) (zip docs embeddings))) 0 top_k \<and>
   retrieve_from_pool f q docs embeddings top_k (Some []) =
     retrieve_from_pool f q docs embeddings top_k None \<and>
   (0 \<le> top_k \<longrightarrow>
      length (retrieve_from_pool f q docs embeddings top_k (Some [])) =
        min (nat top_k) (min (length docs) (length embeddings))) \<and>
   (int (length (zip docs embeddings)) \<le> top_k \<longrightarrow>
      doc.truncate ` set (retrieve_from_pool f q docs embeddings top_k (Some [])) =
        fst ` set (zip docs embeddings)) \<and>
   report_results env self q (Some []) = [] \<and>
   merged env self q (Some []) = base_results env self q \<and>
   answer env self w question history (Some []) = answer env self w question history None"
proof -
  define scored where
    "scored = map (\<lambda>(d, v). doc.extend d \<lparr>score = f v q\<rparr>) (zip docs embeddings)"
  have f: "\<not> truthy (Some [])" "\<not> truthy None" by (simp_all add: truthy_def)
  have s: "scan_pool f q (Some []) (zip docs embeddings) = scored"
    unfolding scored_def by (rule scan_pool_empty_filter)
  have r: "retrieve_from_pool f q docs embeddings top_k (Some []) =
      py_slice (sort_reverse score scored) 0 top_k"
    by (simp add: retrieve_from_pool_def s)
  have n: "retrieve_from_pool f q docs embeddings top_k (Some []) =
     retrieve_from_pool f q docs embeddings top_k None"
    using f(1) by (rule retrieve_falsy)
  have l: "length (retrieve_from_pool f q docs embeddings top_k (Some [])) =
        min (nat top_k) (min (length docs) (length embeddings))" if "0 \<le> top_k"
    unfolding r using that
    by (simp add: length_py_slice_prefix_eq length_sort_reverse scored_def)
  have a: "doc.truncate ` set (retrieve_from_pool f q docs embeddings top_k (Some [])) =
        fst ` set (zip docs embeddings)" if "int (length (zip docs embeddings)) \<le> top_k"
  proof -
    from that have "int (length (sort_reverse score scored)) \<le> top_k"
      by (simp add: length_sort_reverse scored_def)
    then have "retrieve_from_pool f q docs embeddings top_k (Some []) = sort_reverse score scored"
      unfolding r by (rule py_slice_prefix_all)
    then show ?thesis
      by (simp add: set_sort_reverse scored_def truncate_scored_image)
  qed
  have e: "report_results env self q (Some []) = []" for q
    using f by (simp add: report_results_def)
  have m: "merged env self q (Some []) = base_results env self q" for q
    by (simp add: merged_def e)
  have "answer env self w question history (Some []) = answer env self w question history None"
  proof -
    have "system_prompt (Some []) = system_prompt None"
      using f by (simp add: system_prompt_def)
    then have ms: "messages (Some []) history question c = messages None history question c" for c
      by (simp add: messages_def)
    have "report_results env self q None = []" for q
      using f by (simp add: report_results_def)
    then have "merged env self q (Some []) = merged env self q None" for q
      by (simp add: merged_def e)
    then show ?thesis unfolding answer_def by (simp only: ms)
  qed
  with s r n l a e m show ?thesis unfolding scored_def by blast
qed

lemma report_results_eq:
  "report_results env self q rid =
     (if rid \<noteq> None \<and> rid \<noteq> Some []
      then retrieve_from_pool (dot env) q (report_docs self) (report_embeddings self) 4 rid
      else [])"
  by (cases rid) (simp_all add: report_results_def truthy_def)

lemma report_results_length: "length (report_results env self q rid) \<le> 4"
  using retrieve_length [of 4 "dot env" q "report_docs self" "report_embeddings self" rid]
  by (simp add: report_results_def)

lemma base_results_length: "length (base_results env self q) \<le> 2"
  using retrieve_length [of 2 "dot env" q "base_docs self" "base_embeddings self" None]
  by (simp add: base_results_def)

lemma report_results_sorted:
  assumes "no_nan (dot env) q (report_embeddings self)"
  shows "sorted_wrt (\<lambda>a b. float_ge (score a) (score b)) (report_results env self q rid)"
  using retrieve_sorted [OF assms] by (simp add: report_results_def)

lemma report_results_id:
  assumes "r \<in> set (report_results env self q rid)"
  shows "report_id r = rid \<and> doc.truncate r \<in> set (report_docs self)"
proof -
  from assms have t: "truthy rid"
    and r: "r \<in> set (retrieve_from_pool (dot env) q (report_docs self) (report_embeddings self) 4 rid)"
    by (auto simp add: report_results_def split: if_splits)
  from retrieve_set [OF r] t obtain d v where
    dv: "(d, v) \<in> set (zip (report_docs self) (report_embeddings self))"
      "r = doc.extend d \<lparr>score = dot env v q\<rparr>" "report_id d = rid"
    by blast
  from dv(1) have "d \<in> set (report_docs self)" by (rule set_zip_leftD)
  with dv(2,3) show ?thesis by (simp add: truncate_extend report_id_extend)
qed

lemma answer_returns:
  assumes "embed_query env w question = (Inr q, w')"
    and "chat_create env (messages rid history question (context_str (merged env self q rid))) = Some a"
  shows "answer env self w question history rid = (Inr (a, sources (merged env self q rid)), self, w')"
  using assms by (simp add: answer_def Let_def)

text \<open>
  Claim C3, amended. The merged sequence of \<open>answer\<close> is the report results followed by
  the base results. The report results are the search of the report pool with
  \<open>top_k = 4\<close> filtered to the report identifier when that is a non-empty string, and
  empty when it is absent or empty; the base results are the unfiltered search of the
  base pool with \<open>top_k = 2\<close>. Each part is at most that long, and in descending order of
  score when no score of its pool is NaN; every report result has the requested report
  identifier, and in the merged
  sequence every report result stands before every base result, whatever the scores.
  The sources \<open>answer\<close> returns are built from this sequence.
\<close>

theorem merged_report_then_base:
  "merged env self q rid = report_results env self q rid @ base_results env self q \<and>
   report_results env self q rid =
     (if rid \<noteq> None \<and> rid \<noteq> Some []
      then retrieve_from_pool (dot env) q (report_docs self) (report_embeddings self) 4 rid
      else []) \<and>
   base_results env self q =
     retrieve_from_pool (dot env) q (base_docs self) (base_embeddings self) 2 None \<and>
   length (report_results env self q rid) \<le> 4 \<and>
   length (base_results env self q) \<le> 2 \<and>
   (no_nan (dot env) q (report_embeddings self) \<longrightarrow>
      sorted_wrt (\<lambda>a b. float_ge (score a) (score b)) (report_results env self q rid)) \<and>
   (no_nan (dot env) q (base_embeddings self) \<longrightarrow>
      sorted_wrt (\<lambda>a b. float_ge (score a) (score b)) (base_results env self q)) \<and>
   (\<forall>r \<in> set (report_results env self q rid). report_id r = rid) \<and>
   (\<forall>i < length (report_results env self q rid).
      merged env self q rid ! i = report_results env self q rid ! i) \<and>
   (\<forall>j < length (base_results env self q).
      merged env self q rid ! (length (report_results env self q rid) + j)
        = base_results env self q ! j) \<and>
   (\<forall>w' a. embed_query env w question = (Inr q, w') \<longrightarrow>
      chat_create env (messages rid history question (context_str (merged env self q rid))) = Some a \<longrightarrow>
      answer env self w question history rid
        = (Inr (a, sources (merged env self q rid)), self, w'))"
  using report_results_eq [of env self q rid] report_results_length [of env self q rid]
    base_results_length [of env self q] report_results_sorted [of env q self rid]
    retrieve_sorted [of "dot env" q "base_embeddings self" "base_docs self" 2 None]
    report_results_id [of _ env self q rid] answer_returns [of env w question q _ rid history self]
  by (simp add: merged_def base_results_def nth_append)

lemma length_str: "length (str s) = length s"
  by (simp add: str_def)

lemma str_eq_Nil: "str s = [] \<longleftrightarrow> s = []"
  by (simp add: str_def)

lemma knowledge_chunks_shape:
  obtains k1 k2 k3 k4 where "KNOWLEDGE_CHUNKS = [k1, k2, k3, k4]"
    and "report_id k1 = None" "report_id k2 = None" "report_id k3 = None" "report_id k4 = None"
    and "filename k1 = None" "filename k2 = None" "filename k3 = None" "filename k4 = None"
    and "title k3 = str ''Rainscreen Requirements in British Columbia''"
    and "doc_id k3 = str ''doc3_rainscreen_bc''"
    and "title k1 = str ''Balcony Membrane Lifespan and Replacement''"
    and "doc_id k1 = str ''doc1_balcony_membranes''"
  by (simp add: KNOWLEDGE_CHUNKS_def)

text \<open>The definitions unfolded to run the searches of \<open>answer\<close> in the example environment.\<close>

lemmas fixture_defs = retrieve_from_pool_def sort_reverse_def sort_lt_def py_slice_def clamp_index_def
  truthy_def doc.defs scored.defs Let_def env0_def engine1_def engine0_def
  report_results_def base_results_def str_eq_Nil

text \<open>
  Claim C10 on a pool of three documents, none with the report identifier \<open>""\<close>: the
  search with the filter \<open>""\<close> returns all three, and \<open>answer\<close> on the example engine has
  no report results although its report pool is not empty.
\<close>

theorem empty_report_id_is_absent_witness:
  "map report_id (retrieve_from_pool (\<lambda>v q. Val (v * q)) (1::int) [doc_a, doc_b, doc_u] [1, 2, 3] 3
     (Some [])) = [None, Some (str ''B''), Some (str ''u'')] \<and>
   length (retrieve_from_pool (\<lambda>v q. Val (v * q)) (1::int) [doc_a, doc_b, doc_u] [1, 2, 3] 3
     (Some [])) = 3 \<and>
   report_results env0 engine1 1 (Some []) = [] \<and> length (report_docs engine1) = 1"
  using empty_report_id_is_absent
    [of "\<lambda>v q. Val (v * q)" "1::int" "[doc_a, doc_b, doc_u]" "[1, 2, 3]" 3 env0 engine1]
  by (simp add: fixture_defs doc_a_def doc_b_def doc_u_def)

text \<open>
  The amended claim C3 on the example engine: the report result with score 5 stands
  before the base results with scores 431 and 424, and without a report identifier
  only the base results remain.
\<close>

theorem merged_report_then_base_witness:
  "map score (merged env0 engine1 1 (Some (str ''u''))) = [Val 5, Val 431, Val 424] \<and>
   map report_id (merged env0 engine1 1 (Some (str ''u''))) = [Some (str ''u''), None, None] \<and>
   map score (merged env0 engine1 1 None) = [Val 431, Val 424]"
proof -
  obtain k1 k2 k3 k4 where k: "KNOWLEDGE_CHUNKS = [k1, k2, k3, k4]"
    "report_id k1 = None" "report_id k3 = None"
    by (rule knowledge_chunks_shape)
  have a: "report_id doc_a = Some (str ''u'')" by (simp add: doc_a_def)
  have m: "merged env0 engine1 1 rid = report_results env0 engine1 1 rid @ base_results env0 engine1 1"
    for rid
    by (rule conjunct1 [OF merged_report_then_base])
  have b: "base_results env0 engine1 1 = [doc.extend k3 \<lparr>score = Val 431\<rparr>, doc.extend k1 \<lparr>score = Val 424\<rparr>]"
    by (simp add: fixture_defs k)
  have r: "report_results env0 engine1 1 (Some (str ''u'')) = [doc.extend doc_a \<lparr>score = Val 5\<rparr>]"
    by (simp add: fixture_defs a)
  have n: "report_results env0 engine1 1 None = []"
    by (simp add: fixture_defs)
  show ?thesis
    unfolding m b r n by (simp add: k a doc.defs)
qed

text \<open>
  Claim C3 as stated fails for the report identifier \<open>""\<close>, which is provided but empty:
  \<open>answer\<close> has no report results, while the search of the report pool with
  \<open>top_k = 4\<close> filtered to \<open>""\<close> returns the document of report \<open>u\<close>.
\<close>

theorem report_search_skipped_counterexample:
  "report_results env0 engine1 1 (Some []) = [] \<and>
   map score (retrieve_from_pool (dot env0) 1 (report_docs engine1) (report_embeddings engine1) 4
     (Some [])) = [Val 5]"
  by (simp add: fixture_defs)

section \<open>Properties of ingestion and of the engine state\<close>

lemma set_replace_crlf: "set (replace_crlf s) \<subseteq> set s"
  by (induction s rule: replace_crlf.induct) auto

lemma set_py_slice: "set (py_slice xs i j) \<subseteq> set xs"
proof -
  have "set (take n (drop k xs)) \<subseteq> set xs" for n k
    using set_take_subset [of n "drop k xs"] set_drop_subset [of k xs] by blast
  then show ?thesis by (simp add: py_slice_def Let_def)
qed

lemma strip_blank:
  assumes "\<forall>c \<in> set s. isspace c"
  shows "strip s = []"
proof -
  have "dropWhile isspace s = []" using assms by (simp add: dropWhile_eq_Nil_conv)
  then show ?thesis unfolding strip_def by (simp only: rev.simps dropWhile.simps)
qed

lemma chunk_loop_blank:
  assumes "chunk_loop t m ov s cs = Some r"
  shows "(\<forall>c \<in> set t. isspace c) \<longrightarrow> filter (\<lambda>c. c \<noteq> []) r = filter (\<lambda>c. c \<noteq> []) cs"
proof (rule chunk_loop.raw_induct
    [where P = "\<lambda>t m ov s cs r. (\<forall>c \<in> set t. isspace c) \<longrightarrow>
        filter (\<lambda>c. c \<noteq> []) r = filter (\<lambda>c. c \<noteq> []) cs", OF _ assms])
  fix f :: "pystr \<Rightarrow> int \<Rightarrow> int \<Rightarrow> int \<Rightarrow> pystr list \<Rightarrow> pystr list option"
  fix t m ov s cs r
  assume IH: "\<And>t m ov s cs r. f t m ov s cs = Some r \<Longrightarrow>
      (\<forall>c \<in> set t. isspace c) \<longrightarrow> filter (\<lambda>c. c \<noteq> []) r = filter (\<lambda>c. c \<noteq> []) cs"
  assume step: "(if s < int (length t) then
        (let end = min (s + m) (int (length t));
             chunk = py_slice t s end;
             chunks' = cs @ [strip chunk]
         in if end = int (length t) then Some chunks'
            else f t m ov (end - ov) chunks')
      else Some cs) = Some r"
  show "(\<forall>c \<in> set t. isspace c) \<longrightarrow> filter (\<lambda>c. c \<noteq> []) r = filter (\<lambda>c. c \<noteq> []) cs"
  proof
    assume blank: "\<forall>c \<in> set t. isspace c"
    have e: "strip (py_slice t a b) = []" for a b
      using blank set_py_slice [of t a b] by (intro strip_blank) blast
    show "filter (\<lambda>c. c \<noteq> []) r = filter (\<lambda>c. c \<noteq> []) cs"
    proof (cases "s < int (length t)")
      case False
      with step show ?thesis by simp
    next
      case True
      show ?thesis
      proof (cases "s + m < int (length t)")
        case False
        then have "min (s + m) (int (length t)) = int (length t)" by simp
        with step \<open>s < int (length t)\<close> have "r = cs @ [[]]" by (simp add: Let_def e)
        then show ?thesis by simp
      next
        case True
        then have "min (s + m) (int (length t)) = s + m" "s + m \<noteq> int (length t)" by simp_all
        with step \<open>s < int (length t)\<close>
        have "f t m ov (s + m - ov) (cs @ [[]]) = Some r"
          by (simp add: Let_def e)
        from IH [OF this] blank show ?thesis by simp
      qed
    qed
  qed
qed

lemma chunk_text_blank:
  assumes "\<forall>c \<in> set t. isspace c"
  shows "chunk_text t 1200 200 = Some []"
proof -
  obtain r where r: "chunk_loop (replace_crlf t) 1200 200 0 [] = Some r"
    using chunk_loop_returns [of 200 1200 "replace_crlf t" 0 "[]"] by auto
  have "\<forall>c \<in> set (replace_crlf t). isspace c"
    using assms set_replace_crlf [of t] by blast
  with chunk_loop_blank [OF r] have "filter (\<lambda>c. c \<noteq> []) r = []" by simp
  with r show ?thesis by (simp add: chunk_text_def)
qed

lemma chunk_text_default_returns: "\<exists>chunks. chunk_text t 1200 200 = Some chunks"
  using chunk_loop_returns [of 200 1200 "replace_crlf t" 0 "[]"]
  by (auto simp add: chunk_text_def)

text \<open>
  Claim C8. When chunking yields no chunk, \<open>ingest_report\<close> returns normally with the
  identifier just drawn from \<open>uuid4\<close>; the engine is unchanged, so the report pool is, and
  the log of calls to the embedding service is unchanged, so no such call was made.
  An empty or whitespace-only text yields no chunk.
\<close>

theorem ingest_zero_chunks_inert:
  "(chunk_text text 1200 200 = Some [] \<longrightarrow>
      ingest_report env self w fname text =
        Some (Inr (uuid4_src env (uuid_ctr w)), self, w\<lparr>uuid_ctr := Suc (uuid_ctr w)\<rparr>)) \<and>
   ((\<forall>c \<in> set text. isspace c) \<longrightarrow> chunk_text text 1200 200 = Some [])"
  using chunk_text_blank [of "text"]
  by (simp add: ingest_report_def uuid4_def)

text \<open>Claim C8 on a text of two spaces, ingested into the example engine.\<close>

theorem ingest_zero_chunks_inert_witness:
  "isspace 32 \<and> chunk_text (str ''  '') 1200 200 = Some [] \<and>
   ingest_report env0 engine1 world0 (str ''e.pdf'') (str ''  '')
     = Some (Inr (str ''u''), engine1, \<lparr>uuid_ctr = 1, embed_calls = []\<rparr>)"
  using ingest_zero_chunks_inert [of "str ''  ''" env0 engine1 world0 "str ''e.pdf''"]
  by (simp add: str_def isspace_def env0_def world0_def)

lemma ingest_loop_appends:
  "ingest_loop env fname rid ps self w = (self', w') \<Longrightarrow>
     \<exists>ds. length ds = length ps \<and> map doc_text ds = map fst ps \<and>
       (\<forall>d \<in> set ds. new_doc_ok fname rid d) \<and>
       report_docs self' = report_docs self @ ds \<and>
       report_embeddings self' = report_embeddings self @ map snd ps \<and>
       base_docs self' = base_docs self \<and> base_embeddings self' = base_embeddings self \<and>
       embed_calls w' = embed_calls w \<and> uuid_ctr w' = uuid_ctr w + length ps"
proof (induction ps arbitrary: self w)
  case Nil
  then show ?case by simp
next
  case (Cons p ps)
  obtain chunk vec where p: "p = (chunk, vec)" by (cases p)
  define d where "d = \<lparr>doc_id = uuid4_src env (uuid_ctr w), title = str ''Report: '' @ fname,
      doc_text = chunk, report_id = Some rid, filename = Some fname\<rparr>"
  define self1 where "self1 = self\<lparr>report_docs := report_docs self @ [d],
      report_embeddings := report_embeddings self @ [vec]\<rparr>"
  define w1 where "w1 = w\<lparr>uuid_ctr := Suc (uuid_ctr w)\<rparr>"
  from Cons.prems have "ingest_loop env fname rid ps self1 w1 = (self', w')"
    by (simp add: p uuid4_def Let_def d_def self1_def w1_def)
  from Cons.IH [OF this] obtain ds where ds:
    "length ds = length ps" "map doc_text ds = map fst ps"
    "\<forall>d \<in> set ds. new_doc_ok fname rid d"
    "report_docs self' = report_docs self1 @ ds"
    "report_embeddings self' = report_embeddings self1 @ map snd ps"
    "base_docs self' = base_docs self1" "base_embeddings self' = base_embeddings self1"
    "embed_calls w' = embed_calls w1" "uuid_ctr w' = uuid_ctr w1 + length ps"
    by blast
  have "new_doc_ok fname rid d" by (simp add: new_doc_ok_def d_def)
  with ds show ?case
    by (intro exI [of _ "d # ds"]) (simp add: p self1_def w1_def d_def)
qed

lemma ingest_report_appends:
  assumes "ingest_report env self w fname t = Some (r, self', w')"
  shows "\<exists>ds vs. length ds = length vs \<and>
       (\<forall>d \<in> set ds. new_doc_ok fname (uuid4_src env (uuid_ctr w)) d) \<and>
       report_docs self' = report_docs self @ ds \<and>
       report_embeddings self' = report_embeddings self @ vs \<and>
       base_docs self' = base_docs self \<and> base_embeddings self' = base_embeddings self"
proof -
  obtain chunks where c: "chunk_text t 1200 200 = Some chunks"
    using chunk_text_default_returns by blast
  define rid where "rid = uuid4_src env (uuid_ctr w)"
  define w1 where "w1 = w\<lparr>uuid_ctr := Suc (uuid_ctr w)\<rparr>"
  have trivial: "\<exists>ds vs. length ds = length vs \<and>
       (\<forall>d \<in> set ds. new_doc_ok fname (uuid4_src env (uuid_ctr w)) d) \<and>
       report_docs self = report_docs self @ ds \<and>
       report_embeddings self = report_embeddings self @ vs \<and>
       base_docs self = base_docs self \<and> base_embeddings self = base_embeddings self"
    by (intro exI [of _ "[]"]) simp
  show ?thesis
  proof (cases "chunks = []")
    case True
    with assms c have "self' = self" by (simp add: ingest_report_def uuid4_def)
    with trivial show ?thesis by simp
  next
    case False
    obtain res w2 where e: "embed_texts env w1 chunks = (res, w2)" by (cases "embed_texts env w1 chunks")
    show ?thesis
    proof (cases res)
      case (Inl err)
      with assms c False e have "self' = self"
        by (simp add: ingest_report_def uuid4_def w1_def)
      with trivial show ?thesis by simp
    next
      case (Inr vectors)
      obtain s3 w3 where l: "ingest_loop env fname rid (zip chunks vectors) self w2 = (s3, w3)"
        by (cases "ingest_loop env fname rid (zip chunks vectors) self w2")
      with assms c False e Inr have "self' = s3"
        by (simp add: ingest_report_def uuid4_def w1_def rid_def)
      with ingest_loop_appends [OF l] show ?thesis
        unfolding rid_def by (metis length_map)
    qed
  qed
qed

lemma ingest_report_pairs:
  assumes "ingest_report env self w fname t = Some (r, self', w')"
  shows "\<exists>chunks vectors ds. chunk_text t 1200 200 = Some chunks \<and>
       length ds = length (zip chunks vectors) \<and>
       map doc_text ds = map fst (zip chunks vectors) \<and>
       report_docs self' = report_docs self @ ds \<and>
       report_embeddings self' = report_embeddings self @ map snd (zip chunks vectors) \<and>
       base_docs self' = base_docs self \<and> base_embeddings self' = base_embeddings self \<and>
       (\<forall>rid. r = Inr rid \<longrightarrow> chunks \<noteq> [] \<longrightarrow>
          (\<exists>w2. embed_texts env (w\<lparr>uuid_ctr := Suc (uuid_ctr w)\<rparr>) chunks = (Inr vectors, w2)))"
proof -
  obtain chunks where c: "chunk_text t 1200 200 = Some chunks"
    using chunk_text_default_returns by blast
  define rid where "rid = uuid4_src env (uuid_ctr w)"
  define w1 where "w1 = w\<lparr>uuid_ctr := Suc (uuid_ctr w)\<rparr>"
  obtain res w2 where e: "embed_texts env w1 chunks = (res, w2)"
    by (cases "embed_texts env w1 chunks")
  have inert: ?thesis if "self' = self" "chunks = [] \<or> (\<exists>err. r = Inl err)"
    using that c by (intro exI [of _ chunks] exI [of _ "[]"]) auto
  show ?thesis
  proof (cases "chunks = []")
    case True
    with assms c have "self' = self" by (simp add: ingest_report_def uuid4_def)
    with True show ?thesis by (intro inert) simp_all
  next
    case ne: False
    show ?thesis
    proof (cases res)
      case (Inl err)
      with assms c ne e have "self' = self" "r = Inl err"
        by (simp_all add: ingest_report_def uuid4_def w1_def)
      then show ?thesis by (intro inert) simp_all
    next
      case (Inr vectors)
      obtain s3 w3 where l: "ingest_loop env fname rid (zip chunks vectors) self w2 = (s3, w3)"
        by (cases "ingest_loop env fname rid (zip chunks vectors) self w2")
      with assms c ne e Inr have "self' = s3"
        by (simp add: ingest_report_def uuid4_def w1_def rid_def)
      with ingest_loop_appends [OF l] obtain ds where
        "length ds = length (zip chunks vectors)" "map doc_text ds = map fst (zip chunks vectors)"
        "report_docs self' = report_docs self @ ds"
        "report_embeddings self' = report_embeddings self @ map snd (zip chunks vectors)"
        "base_docs self' = base_docs self" "base_embeddings self' = base_embeddings self"
        by blast
      with c e Inr show ?thesis
        unfolding w1_def by (intro exI [of _ chunks] exI [of _ vectors] exI [of _ ds]) simp
    qed
  qed
qed

lemma ingest_report_returns: "\<exists>r. ingest_report env self w fname t = Some r"
proof -
  obtain chunks where "chunk_text t 1200 200 = Some chunks"
    using chunk_text_default_returns by blast
  then have "ingest_report env self w fname t \<noteq> None"
    by (simp add: ingest_report_def uuid4_def)
  then show ?thesis by blast
qed

lemma answer_keeps_engine:
  "answer env self w question history rid = (r, self', w') \<Longrightarrow> self' = self"
  by (auto simp add: answer_def Let_def split: prod.splits sum.splits option.splits)

lemma init_pools:
  assumes "RAGEngine_init env w = (Inr self, w')"
  shows "base_docs self = KNOWLEDGE_CHUNKS \<and> report_docs self = [] \<and> report_embeddings self = [] \<and>
    (embed_contract env \<longrightarrow> length (base_embeddings self) = length (base_docs self))"
proof -
  have ne: "map doc_text KNOWLEDGE_CHUNKS \<noteq> []" by (simp add: KNOWLEDGE_CHUNKS_def)
  from assms ne obtain data where d: "embeddings_create env (map doc_text KNOWLEDGE_CHUNKS) = Some data"
    and s: "self = \<lparr>base_docs = KNOWLEDGE_CHUNKS, base_embeddings = map (normalize env) data,
                report_docs = [], report_embeddings = []\<rparr>"
    by (auto simp add: RAGEngine_init_def embed_texts_def Let_def split: option.splits)
  from d have "embed_contract env \<longrightarrow> length data = length KNOWLEDGE_CHUNKS"
    by (auto simp add: embed_contract_def)
  with s show ?thesis by simp
qed

lemma reachable_pools_ok: "reachable env self w \<Longrightarrow> pools_ok env self"
proof (induction rule: reachable.induct)
  case (construct w self w')
  from init_pools [OF this] show ?case by (simp add: pools_ok_def)
next
  case (ingest self w fname t r self' w')
  from ingest_report_appends [OF ingest.hyps(2)] obtain ds vs where n:
    "length ds = length vs"
    "\<forall>d \<in> set ds. new_doc_ok fname (uuid4_src env (uuid_ctr w)) d"
    "report_docs self' = report_docs self @ ds"
    "report_embeddings self' = report_embeddings self @ vs"
    "base_docs self' = base_docs self" "base_embeddings self' = base_embeddings self"
    by blast
  have "\<exists>fname rid. new_doc_ok fname rid d" if "d \<in> set (report_docs self')" for d
    using that n(2,3) ingest.IH unfolding pools_ok_def by auto
  with n ingest.IH show ?case
    unfolding pools_ok_def by auto
next
  case (ask self w question history rid r self' w')
  from answer_keeps_engine [OF ask.hyps(2)] ask.IH show ?case by simp
qed

subsection \<open>The example engine is reachable\<close>

lemma base_lengths:
  "map (\<lambda>t. int (length t)) (map doc_text KNOWLEDGE_CHUNKS) = [424, 378, 431, 409]"
  by (simp add: KNOWLEDGE_CHUNKS_def length_str)

lemma init_env0:
  "RAGEngine_init env0 world0 = (Inr engine0, world0\<lparr>embed_calls := [map doc_text KNOWLEDGE_CHUNKS]\<rparr>)"
proof -
  have ne: "map doc_text KNOWLEDGE_CHUNKS \<noteq> []" by (simp add: KNOWLEDGE_CHUNKS_def)
  show ?thesis
    using ne base_lengths
    by (simp add: RAGEngine_init_def embed_texts_def env0_def engine0_def world0_def Let_def)
qed

lemma chunk_alpha: "chunk_text (str ''alpha'') 1200 200 = Some [str ''alpha'']"
  by (simp add: chunk_text_def chunk_loop.simps py_slice_def clamp_index_def str_def strip_def
      isspace_def CR_def LF_def)

lemma str_append: "str a @ str b = str (a @ b)"
  by (simp add: str_def)

lemma ingest_env0:
  "ingest_report env0 engine0 (world0\<lparr>embed_calls := [map doc_text KNOWLEDGE_CHUNKS]\<rparr>)
     (str ''a.pdf'') (str ''alpha'') = Some (Inr (str ''u''), engine1, world1)"
proof -
  have u: "replicate (Suc 0) 117 = str ''u''" "replicate (Suc (Suc 0)) 117 = str ''uu''"
    by (simp_all add: str_def)
  have ne: "str ''alpha'' \<noteq> []" by (simp add: str_eq_Nil)
  have l: "int (length (str ''alpha'')) = 5" by (simp add: length_str)
  show ?thesis
    unfolding ingest_report_def chunk_alpha
    using ne by (simp add: uuid4_def embed_texts_def env0_def Let_def doc_a_def engine0_def
        engine1_def world0_def world1_def u l str_append del: replicate.simps)
qed

lemma reachable_engine1: "reachable env0 engine1 world1"
  by (rule reachable.ingest [OF reachable.construct [OF init_env0] ingest_env0])

lemma embed_contract_env0: "embed_contract env0"
  by (simp add: embed_contract_def env0_def)

text \<open>
  Claim C9, amended. In every state the engine can reach, the report pool has as many
  documents as vectors. The base pool has as many documents as vectors provided the
  embedding service keeps its contract of one embedding per input text: the
  constructor stores what the service returns, unchecked. \<open>ingest_report\<close> always returns
  or raises, leaves the base pool alone, and appends documents and vectors pairwise:
  the new documents hold the chunks of the text, in order, the new vectors are the
  vectors the service returned for them, and only as many of either as there are of
  both. \<open>answer\<close> leaves the engine as it is.
\<close>

theorem pools_stay_parallel:
  assumes "reachable env self w"
  shows "length (report_docs self) = length (report_embeddings self) \<and>
     (embed_contract env \<longrightarrow> length (base_docs self) = length (base_embeddings self)) \<and>
     (\<forall>fname t. \<exists>r. ingest_report env self w fname t = Some r) \<and>
     (\<forall>fname t r self' w'. ingest_report env self w fname t = Some (r, self', w') \<longrightarrow>
        (\<exists>chunks vectors ds. chunk_text t 1200 200 = Some chunks \<and>
           length ds = length (zip chunks vectors) \<and>
           map doc_text ds = map fst (zip chunks vectors) \<and>
           report_docs self' = report_docs self @ ds \<and>
           report_embeddings self' = report_embeddings self @ map snd (zip chunks vectors) \<and>
           base_docs self' = base_docs self \<and> base_embeddings self' = base_embeddings self \<and>
           (\<forall>rid. r = Inr rid \<longrightarrow> chunks \<noteq> [] \<longrightarrow>
              (\<exists>w2. embed_texts env (w\<lparr>uuid_ctr := Suc (uuid_ctr w)\<rparr>) chunks
                 = (Inr vectors, w2))))) \<and>
     (\<forall>question history rid r self' w'.
        answer env self w question history rid = (r, self', w') \<longrightarrow> self' = self)"
proof -
  from reachable_pools_ok [OF assms]
  have "length (report_docs self) = length (report_embeddings self)"
    and "embed_contract env \<longrightarrow> length (base_docs self) = length (base_embeddings self)"
    by (auto simp add: pools_ok_def)
  moreover have "self' = self"
    if "answer env self w question history rid = (r, self', w')" for question history rid r self' w'
    using that by (rule answer_keeps_engine)
  ultimately show ?thesis
    using ingest_report_returns [of env self w] ingest_report_pairs [of env self w]
    by blast
qed

text \<open>
  Claim C9 as stated fails at construction: with an embedding service that answers
  with an empty list, the constructor builds an engine with the four documents of
  the knowledge base and no vector.
\<close>

theorem base_pool_short_counterexample:
  "RAGEngine_init env_short world0 =
     (Inr engine_short, world0\<lparr>embed_calls := [map doc_text KNOWLEDGE_CHUNKS]\<rparr>) \<and>
   length (base_docs engine_short) = 4 \<and> length (base_embeddings engine_short) = 0"
proof -
  have ne: "map doc_text KNOWLEDGE_CHUNKS \<noteq> []" by (simp add: KNOWLEDGE_CHUNKS_def)
  have l: "length KNOWLEDGE_CHUNKS = 4" by (simp add: KNOWLEDGE_CHUNKS_def)
  show ?thesis
    using ne l
    by (simp add: RAGEngine_init_def embed_texts_def env_short_def env0_def engine_short_def
        world0_def Let_def)
qed

text \<open>Claim C9 on the example engine, reached by one construction and one ingestion.\<close>

theorem pools_stay_parallel_witness:
  "reachable env0 engine1 world1 \<and> embed_contract env0 \<and>
   length (report_docs engine1) = 1 \<and> length (report_embeddings engine1) = 1 \<and>
   length (base_docs engine1) = 4 \<and> length (base_embeddings engine1) = 4"
  using pools_stay_parallel [OF reachable_engine1] reachable_engine1 embed_contract_env0
  by (simp add: engine1_def engine0_def)

section \<open>Sources of an answer\<close>









end
